theory Spec2Isabelle
  imports Complex_Main
begin

section \<open>Configuration and errors\<close>

text \<open>
  \<^verbatim>\<open>RATE_LIMIT_REQUESTS = int(os.getenv("RATE_LIMIT_REQUESTS", "5"))\<close> and
  \<^verbatim>\<open>RATE_LIMIT_WINDOW = int(os.getenv("RATE_LIMIT_WINDOW", "60"))\<close> are Python integers
  read once from the environment: any integer, also zero or a negative one.
  Timestamps are the floats of \<^verbatim>\<open>time.time()\<close>, idealised as real numbers: the
  comparisons of the source are kept in the form the source writes them.
\<close>

record config =
  RATE_LIMIT_REQUESTS :: int
  RATE_LIMIT_WINDOW :: int

datatype error = BackendError | IndexError

text \<open>\<^verbatim>\<open>try: body  except Exception: handler\<close> on results with errors as values.\<close>

definition try_except :: "error + 'a \<Rightarrow> (error \<Rightarrow> error + 'a) \<Rightarrow> error + 'a" where
  "try_except body handler = (case body of Inl e \<Rightarrow> handler e | Inr v \<Rightarrow> Inr v)"

section \<open>The in-memory store\<close>

text \<open>
  \<^verbatim>\<open>rate_limit_storage = defaultdict(list)\<close>: a dictionary from client keys to lists
  of timestamps, where reading a missing key gives the empty list.
\<close>

type_synonym storage = "string \<Rightarrow> real list option"

definition storage_get :: "storage \<Rightarrow> string \<Rightarrow> real list" where
  "storage_get s ip = (case s ip of None \<Rightarrow> [] | Some xs \<Rightarrow> xs)"

text \<open>
  The list comprehension of \<^verbatim>\<open>check_rate_limit_memory\<close>:
  \<^verbatim>\<open>[req_time for req_time in ... if current_time - req_time < RATE_LIMIT_WINDOW]\<close>.
\<close>

definition memory_window :: "config \<Rightarrow> real \<Rightarrow> real list \<Rightarrow> real list" where
  "memory_window cfg current_time xs =
     filter (\<lambda>req_time. current_time - req_time < real_of_int (RATE_LIMIT_WINDOW cfg)) xs"

definition check_rate_limit_memory :: "config \<Rightarrow> storage \<Rightarrow> string \<Rightarrow> real \<Rightarrow> bool \<times> storage" where
  "check_rate_limit_memory cfg s ip current_time =
     (let kept = memory_window cfg current_time (storage_get s ip);
          s1 = s(ip \<mapsto> kept)
      in if int (length kept) \<ge> RATE_LIMIT_REQUESTS cfg then (False, s1)
         else (True, s1(ip \<mapsto> kept @ [current_time])))"

text \<open>A sequence of checks against the in-memory store, each on the storage the previous one left.\<close>

fun run_memory :: "config \<Rightarrow> storage \<Rightarrow> (string \<times> real) list \<Rightarrow> bool list \<times> storage" where
  "run_memory cfg s [] = ([], s)"
| "run_memory cfg s ((ip, t) # calls) =
     (case check_rate_limit_memory cfg s ip t of
        (b, s') \<Rightarrow> (case run_memory cfg s' calls of (bs, s'') \<Rightarrow> (b # bs, s'')))"

section \<open>The Redis store\<close>

text \<open>
  A sorted set is a list of (member, score) pairs with pairwise distinct members. The
  member the source adds is \<^verbatim>\<open>str(current_time)\<close>; the string of a float determines
  the float, so a member is represented by the float it prints. A key may carry an
  expiry deadline (\<^verbatim>\<open>EXPIRE\<close>); the server's clock is taken to be the clock of
  \<^verbatim>\<open>current_time\<close>.
\<close>

type_synonym zset = "(real \<times> real) list"

record redis_entry =
  members :: zset
  expire_at :: "real option"

type_synonym redis_db = "string \<Rightarrow> redis_entry option"

text \<open>The sorted set a key holds at time \<open>now\<close>: a missing or expired key reads as empty.\<close>

definition redis_live :: "redis_db \<Rightarrow> string \<Rightarrow> real \<Rightarrow> zset" where
  "redis_live db key now =
     (case db key of
        None \<Rightarrow> []
      | Some e \<Rightarrow>
          (case expire_at e of
             None \<Rightarrow> members e
           | Some d \<Rightarrow> if d \<le> now then [] else members e))"

text \<open>\<^verbatim>\<open>ZREMRANGEBYSCORE key lo hi\<close> removes the members with \<open>lo \<le> score \<le> hi\<close>.\<close>

definition zremrangebyscore :: "zset \<Rightarrow> real \<Rightarrow> real \<Rightarrow> zset" where
  "zremrangebyscore z lo hi = filter (\<lambda>(m, sc). \<not> (lo \<le> sc \<and> sc \<le> hi)) z"

definition zcard :: "zset \<Rightarrow> nat" where
  "zcard z = length z"

text \<open>\<^verbatim>\<open>ZADD key {member: score}\<close>: a member already in the set only gets the new score.\<close>

definition zadd :: "zset \<Rightarrow> real \<Rightarrow> real \<Rightarrow> zset" where
  "zadd z m sc = filter (\<lambda>(m', sc'). m' \<noteq> m) z @ [(m, sc)]"

definition redis_key :: "string \<Rightarrow> string" where
  "redis_key ip = ''rate_limit:'' @ ip"

text \<open>
  The pipeline of \<^verbatim>\<open>check_rate_limit_redis\<close>, executed as one unit: zremrangebyscore,
  zcard, zadd, expire. It returns the result of zcard (\<^verbatim>\<open>results[1]\<close>) and the new
  database. \<^verbatim>\<open>EXPIRE\<close> with a timeout that is not positive deletes the key.
\<close>

definition redis_pipeline :: "config \<Rightarrow> redis_db \<Rightarrow> string \<Rightarrow> real \<Rightarrow> nat \<times> redis_db" where
  "redis_pipeline cfg db key current_time =
     (let z1 = zremrangebyscore (redis_live db key current_time) 0
                 (current_time - real_of_int (RATE_LIMIT_WINDOW cfg));
          current_count = zcard z1;
          z2 = zadd z1 current_time current_time
      in (current_count,
          if RATE_LIMIT_WINDOW cfg \<le> 0 then db(key := None)
          else db(key \<mapsto> \<lparr>members = z2,
                 expire_at = Some (current_time + real_of_int (RATE_LIMIT_WINDOW cfg))\<rparr>)))"

text \<open>
  The body of the \<^verbatim>\<open>try\<close> block: \<open>fails\<close> says whether the Redis client raises on
  this call (the database is then left as it was).
\<close>

definition redis_try :: "config \<Rightarrow> bool \<Rightarrow> redis_db \<Rightarrow> string \<Rightarrow> real \<Rightarrow> error + (bool \<times> redis_db)" where
  "redis_try cfg fails db ip current_time =
     (if fails then Inl BackendError
      else (case redis_pipeline cfg db (redis_key ip) current_time of
              (current_count, db') \<Rightarrow> Inr (int current_count < RATE_LIMIT_REQUESTS cfg, db')))"

section \<open>The relational store\<close>

text \<open>
  A row of the table \<^verbatim>\<open>rate_limits\<close>. The primary key \<^verbatim>\<open>id\<close> is assigned by the
  database and never read by the limiter.
\<close>

record RateLimitRecord =
  client_ip :: string
  timestamp :: real

text \<open>Where a session raises: nowhere, in a query (delete or count), or in the commit.\<close>

datatype db_fault = NoFault | FailQuery | FailCommit

text \<open>
  The body of the \<^verbatim>\<open>try\<close> block of \<^verbatim>\<open>check_rate_limit_database\<close> on the committed
  table. The delete runs in the session's transaction; \<^verbatim>\<open>db.close()\<close> in the
  \<^verbatim>\<open>finally\<close> clause discards whatever was not committed, so the table changes only
  through \<^verbatim>\<open>db.commit()\<close>.
\<close>

definition db_session ::
  "config \<Rightarrow> db_fault \<Rightarrow> RateLimitRecord list \<Rightarrow> string \<Rightarrow> real \<Rightarrow> error + (bool \<times> RateLimitRecord list)" where
  "db_session cfg fault table ip current_time =
     (if fault = FailQuery then Inl BackendError
      else
        (let cutoff_time = current_time - real_of_int (RATE_LIMIT_WINDOW cfg);
             rows = filter (\<lambda>r. \<not> (client_ip r = ip \<and> timestamp r < cutoff_time)) table;
             current_count = length (filter (\<lambda>r. client_ip r = ip) rows)
         in if int current_count \<ge> RATE_LIMIT_REQUESTS cfg then Inr (False, table)
            else if fault = FailCommit then Inl BackendError
            else Inr (True, rows @ [\<lparr>client_ip = ip, timestamp = current_time\<rparr>])))"

section \<open>The limiter\<close>

text \<open>
  The state of the process and of its stores. \<open>redis_client\<close> and \<open>SessionLocal\<close>
  say whether the module-level objects of these names are set (not \<^verbatim>\<open>None\<close>); they
  are assigned while the module is loaded.
\<close>

record state =
  redis_client :: bool
  SessionLocal :: bool
  redis_store :: redis_db
  rate_limits :: "RateLimitRecord list"
  rate_limit_storage :: storage

text \<open>What the backends do on one call: whether Redis raises, and where the database session raises.\<close>

record env =
  redis_fails :: bool
  db_fails :: db_fault

definition memory_fallback :: "config \<Rightarrow> state \<Rightarrow> string \<Rightarrow> real \<Rightarrow> bool \<times> state" where
  "memory_fallback cfg st ip current_time =
     (case check_rate_limit_memory cfg (rate_limit_storage st) ip current_time of
        (b, s') \<Rightarrow> (b, st\<lparr>rate_limit_storage := s'\<rparr>))"

definition check_rate_limit_redis :: "config \<Rightarrow> env \<Rightarrow> state \<Rightarrow> string \<Rightarrow> real \<Rightarrow> error + (bool \<times> state)" where
  "check_rate_limit_redis cfg ev st ip current_time =
     try_except
       (case redis_try cfg (redis_fails ev) (redis_store st) ip current_time of
          Inl e \<Rightarrow> Inl e
        | Inr (b, db') \<Rightarrow> Inr (b, st\<lparr>redis_store := db'\<rparr>))
       (\<lambda>e. Inr (memory_fallback cfg st ip current_time))"

definition check_rate_limit_database :: "config \<Rightarrow> env \<Rightarrow> state \<Rightarrow> string \<Rightarrow> real \<Rightarrow> error + (bool \<times> state)" where
  "check_rate_limit_database cfg ev st ip current_time =
     try_except
       (case db_session cfg (db_fails ev) (rate_limits st) ip current_time of
          Inl e \<Rightarrow> Inl e
        | Inr (b, table') \<Rightarrow> Inr (b, st\<lparr>rate_limits := table'\<rparr>))
       (\<lambda>e. Inr (memory_fallback cfg st ip current_time))"

text \<open>\<^verbatim>\<open>check_rate_limit\<close>; \<open>current_time\<close> is what \<^verbatim>\<open>time.time()\<close> returns in it.\<close>

definition check_rate_limit :: "config \<Rightarrow> env \<Rightarrow> state \<Rightarrow> string \<Rightarrow> real \<Rightarrow> error + (bool \<times> state)" where
  "check_rate_limit cfg ev st ip current_time =
     (if redis_client st then check_rate_limit_redis cfg ev st ip current_time
      else if SessionLocal st then check_rate_limit_database cfg ev st ip current_time
      else Inr (memory_fallback cfg st ip current_time))"

text \<open>A sequence of requests, each with what the backends do on it; an error would end it.\<close>

fun run :: "config \<Rightarrow> state \<Rightarrow> (env \<times> string \<times> real) list \<Rightarrow> error + (bool list \<times> state)" where
  "run cfg st [] = Inr ([], st)"
| "run cfg st ((ev, ip, t) # calls) =
     (case check_rate_limit cfg ev st ip t of
        Inl e \<Rightarrow> Inl e
      | Inr (b, st') \<Rightarrow>
          (case run cfg st' calls of
             Inl e \<Rightarrow> Inl e
           | Inr (bs, st'') \<Rightarrow> Inr (b # bs, st'')))"

section \<open>The client key\<close>

text \<open>
  The request as \<^verbatim>\<open>get_client_ip\<close> reads it: \<^verbatim>\<open>request.headers.get(name)\<close> and
  \<^verbatim>\<open>request.client\<close>, which is an address or \<^verbatim>\<open>None\<close>. Header values are decoded
  as Latin-1, one character per byte.
\<close>

record Address =
  host :: string
  port :: nat

record Request =
  headers :: "string \<Rightarrow> string option"
  client :: "Address option"

text \<open>\<^verbatim>\<open>s.split(c)\<close> for a one-character separator: never the empty list.\<close>

fun split :: "char \<Rightarrow> string \<Rightarrow> string list" where
  "split c [] = [[]]"
| "split c (x # xs) =
     (if x = c then [] # split c xs
      else (case split c xs of [] \<Rightarrow> [[x]] | w # ws \<Rightarrow> (x # w) # ws))"

text \<open>\<^verbatim>\<open>str.isspace\<close> on the characters below 256, and \<^verbatim>\<open>str.strip()\<close>.\<close>

definition isspace :: "char \<Rightarrow> bool" where
  "isspace c =
     (let n = (of_char c :: nat)
      in (9 \<le> n \<and> n \<le> 13) \<or> (28 \<le> n \<and> n \<le> 32) \<or> n = 133 \<or> n = 160)"

definition strip :: "string \<Rightarrow> string" where
  "strip s = rev (dropWhile isspace (rev (dropWhile isspace s)))"

definition get_client_ip :: "Request \<Rightarrow> error + string" where
  "get_client_ip request =
     (case headers request ''X-Forwarded-For'' of
        Some (c # cs) \<Rightarrow>
          (case split CHR '','' (c # cs) of
             [] \<Rightarrow> Inl IndexError
           | w # ws \<Rightarrow> Inr (strip w))
      | _ \<Rightarrow>
          (case headers request ''X-Real-IP'' of
             Some (c # cs) \<Rightarrow> Inr (c # cs)
           | _ \<Rightarrow>
               (case client request of
                  Some a \<Rightarrow> Inr (host a)
                | None \<Rightarrow> Inr ''unknown'')))"

section \<open>Facts about one check of the in-memory store\<close>

lemma memory_fst:
  "fst (check_rate_limit_memory cfg s ip t) =
     (int (length (memory_window cfg t (storage_get s ip))) < RATE_LIMIT_REQUESTS cfg)"
  by (auto simp: check_rate_limit_memory_def Let_def)

lemma memory_snd_same:
  "storage_get (snd (check_rate_limit_memory cfg s ip t)) ip =
     (if int (length (memory_window cfg t (storage_get s ip))) < RATE_LIMIT_REQUESTS cfg
      then memory_window cfg t (storage_get s ip) @ [t]
      else memory_window cfg t (storage_get s ip))"
  by (auto simp: check_rate_limit_memory_def Let_def storage_get_def)

lemma memory_snd_other:
  "ip' \<noteq> ip \<Longrightarrow> snd (check_rate_limit_memory cfg s ip t) ip' = s ip'"
  by (auto simp: check_rate_limit_memory_def Let_def)

lemma memory_get_other:
  "ip' \<noteq> ip \<Longrightarrow>
   storage_get (snd (check_rate_limit_memory cfg s ip t)) ip' = storage_get s ip'"
  by (simp add: storage_get_def memory_snd_other)

lemma memory_window_length: "length (memory_window cfg t xs) \<le> length xs"
  by (simp add: memory_window_def)

lemma memory_window_all:
  "(\<And>e. e \<in> set xs \<Longrightarrow> t - e < real_of_int (RATE_LIMIT_WINDOW cfg)) \<Longrightarrow>
   memory_window cfg t xs = xs"
  by (simp add: memory_window_def)

lemma memory_window_idem:
  "memory_window cfg t (memory_window cfg t xs) = memory_window cfg t xs"
  by (simp add: memory_window_def)

lemma run_memory_snd_Cons:
  "snd (run_memory cfg s ((ip, t) # calls)) =
     snd (run_memory cfg (snd (check_rate_limit_memory cfg s ip t)) calls)"
  by (simp split: prod.splits)

lemma run_memory_fst_Cons:
  "fst (run_memory cfg s ((ip, t) # calls)) =
     fst (check_rate_limit_memory cfg s ip t) #
     fst (run_memory cfg (snd (check_rate_limit_memory cfg s ip t)) calls)"
  by (simp split: prod.splits)

lemma run_memory_other:
  "ip' \<notin> fst ` set calls \<Longrightarrow> snd (run_memory cfg s calls) ip' = s ip'"
proof (induction calls arbitrary: s)
  case Nil
  then show ?case by simp
next
  case (Cons c calls)
  obtain ip t where c: "c = (ip, t)" by (cases c)
  from Cons.prems have ne: "ip' \<noteq> ip" and rest: "ip' \<notin> fst ` set calls"
    by (auto simp: c)
  show ?case unfolding c run_memory_snd_Cons
    by (simp add: Cons.IH[OF rest] memory_snd_other[OF ne])
qed

section \<open>The quota within one window\<close>

text \<open>
  The in-memory store keeps the quota. When the timestamps of the checks of one key
  pairwise differ by less than the window, and so do the entries the key already has,
  nothing leaves the window, and check number \<open>i\<close> (from 0) is admitted exactly when
  the entries stored before the sequence plus \<open>i\<close> stay below the limit. From a key
  with no entries, the first \<open>RATE_LIMIT_REQUESTS\<close> checks return true and every
  later one false.
\<close>

lemma memory_window_results:
  assumes "\<And>t t'. t \<in> set ts \<Longrightarrow> t' \<in> set ts \<Longrightarrow>
             t' - t < real_of_int (RATE_LIMIT_WINDOW cfg)"
    and "\<And>e t. e \<in> set (storage_get s ip) \<Longrightarrow> t \<in> set ts \<Longrightarrow>
             t - e < real_of_int (RATE_LIMIT_WINDOW cfg)"
  shows "fst (run_memory cfg s (map (Pair ip) ts)) =
         map (\<lambda>i. int (length (storage_get s ip) + i) < RATE_LIMIT_REQUESTS cfg)
           [0..<length ts]"
  using assms
proof (induction ts arbitrary: s)
  case Nil
  then show ?case by simp
next
  case (Cons t ts)
  let ?xs = "storage_get s ip"
  let ?s' = "snd (check_rate_limit_memory cfg s ip t)"
  have kept: "memory_window cfg t ?xs = ?xs"
    by (rule memory_window_all) (simp add: Cons.prems(2))
  have head: "fst (check_rate_limit_memory cfg s ip t) =
      (int (length ?xs) < RATE_LIMIT_REQUESTS cfg)"
    by (simp add: memory_fst kept)
  have next_list: "storage_get ?s' ip =
      (if int (length ?xs) < RATE_LIMIT_REQUESTS cfg then ?xs @ [t] else ?xs)"
    by (simp add: memory_snd_same kept)
  have p1: "\<And>u u'. u \<in> set ts \<Longrightarrow> u' \<in> set ts \<Longrightarrow>
      u' - u < real_of_int (RATE_LIMIT_WINDOW cfg)"
    using Cons.prems(1) by simp
  have p2: "\<And>e u. e \<in> set (storage_get ?s' ip) \<Longrightarrow> u \<in> set ts \<Longrightarrow>
      u - e < real_of_int (RATE_LIMIT_WINDOW cfg)"
    using Cons.prems(1)[of t] Cons.prems(2) by (auto simp: next_list split: if_splits)
  have tail: "fst (run_memory cfg ?s' (map (Pair ip) ts)) =
      map (\<lambda>i. int (length (storage_get ?s' ip) + i) < RATE_LIMIT_REQUESTS cfg)
        [0..<length ts]"
    by (rule Cons.IH[OF p1 p2])
  have shift:
    "map (\<lambda>i. int (length (storage_get ?s' ip) + i) < RATE_LIMIT_REQUESTS cfg) [0..<length ts]
      = map (\<lambda>i. int (length ?xs + Suc i) < RATE_LIMIT_REQUESTS cfg) [0..<length ts]"
    by (rule map_cong) (auto simp: next_list)
  have "fst (run_memory cfg s (map (Pair ip) (t # ts))) =
      (int (length ?xs) < RATE_LIMIT_REQUESTS cfg) #
      map (\<lambda>i. int (length ?xs + Suc i) < RATE_LIMIT_REQUESTS cfg) [0..<length ts]"
    by (simp only: list.map run_memory_fst_Cons head tail shift)
  also have "\<dots> =
      map (\<lambda>i. int (length ?xs + i) < RATE_LIMIT_REQUESTS cfg) [0..<length (t # ts)]"
    by (simp add: map_upt_Suc ac_simps del: upt_Suc)
  finally show ?case .
qed

lemma memory_window_quota:
  assumes "\<And>t t'. t \<in> set ts \<Longrightarrow> t' \<in> set ts \<Longrightarrow>
             t' - t < real_of_int (RATE_LIMIT_WINDOW cfg)"
    and "storage_get s ip = []"
  shows "fst (run_memory cfg s (map (Pair ip) ts)) =
         map (\<lambda>i. int i < RATE_LIMIT_REQUESTS cfg) [0..<length ts]"
  using memory_window_results[of ts cfg s ip] assms by simp

text \<open>
  The Redis store keeps the quota as long as the timestamps of the checks are pairwise
  distinct: within one window nothing is removed and nothing expires, every check adds
  one member, and check number \<open>i\<close> is admitted exactly when the members the key had
  plus \<open>i\<close> stay below the limit.
\<close>

lemma zremrangebyscore_all:
  "(\<And>sc. sc \<in> snd ` set z \<Longrightarrow> hi < sc) \<Longrightarrow> zremrangebyscore z lo hi = z"
  by (force simp: zremrangebyscore_def filter_id_conv)

lemma zadd_new: "m \<notin> fst ` set z \<Longrightarrow> zadd z m sc = z @ [(m, sc)]"
  by (force simp: zadd_def filter_id_conv)

lemma redis_step_in_window:
  assumes live: "redis_live (redis_store st) (redis_key ip) t = z"
    and win: "\<And>sc. sc \<in> snd ` set z \<Longrightarrow> t - sc < real_of_int (RATE_LIMIT_WINDOW cfg)"
    and new: "t \<notin> fst ` set z"
    and pos: "0 < RATE_LIMIT_WINDOW cfg"
    and sel: "redis_client st" and up: "\<not> redis_fails ev"
  shows "check_rate_limit cfg ev st ip t =
     Inr (int (length z) < RATE_LIMIT_REQUESTS cfg,
          st\<lparr>redis_store := (redis_store st)(redis_key ip \<mapsto>
             \<lparr>members = z @ [(t, t)],
              expire_at = Some (t + real_of_int (RATE_LIMIT_WINDOW cfg))\<rparr>)\<rparr>)"
proof -
  have z1: "zremrangebyscore z 0 (t - real_of_int (RATE_LIMIT_WINDOW cfg)) = z"
    by (rule zremrangebyscore_all) (use win in force)
  show ?thesis
    using sel up pos
    by (simp add: check_rate_limit_def check_rate_limit_redis_def try_except_def redis_try_def
        redis_pipeline_def Let_def live z1 zadd_new[OF new] zcard_def)
qed

lemma redis_window_results:
  assumes "\<And>t t'. t \<in> set ts \<Longrightarrow> t' \<in> set ts \<Longrightarrow>
             t' - t < real_of_int (RATE_LIMIT_WINDOW cfg)"
    and "distinct ts"
    and "\<And>t. t \<in> set ts \<Longrightarrow> redis_live (redis_store st) (redis_key ip) t = z"
    and "\<And>sc t. sc \<in> snd ` set z \<Longrightarrow> t \<in> set ts \<Longrightarrow>
             t - sc < real_of_int (RATE_LIMIT_WINDOW cfg)"
    and "\<And>t. t \<in> set ts \<Longrightarrow> t \<notin> fst ` set z"
    and "redis_client st" and "\<not> redis_fails ev"
  shows "\<exists>st'. run cfg st (map (\<lambda>t. (ev, ip, t)) ts) =
           Inr (map (\<lambda>i. int (length z + i) < RATE_LIMIT_REQUESTS cfg) [0..<length ts], st')"
  using assms
proof (induction ts arbitrary: st z)
  case Nil
  then show ?case by simp
next
  case (Cons t ts)
  let ?W = "real_of_int (RATE_LIMIT_WINDOW cfg)"
  let ?z' = "z @ [(t, t)]"
  let ?st' = "st\<lparr>redis_store := (redis_store st)(redis_key ip \<mapsto>
             \<lparr>members = ?z', expire_at = Some (t + ?W)\<rparr>)\<rparr>"
  have "t - t < ?W" using Cons.prems(1)[of t t] by simp
  then have pos: "0 < RATE_LIMIT_WINDOW cfg" by simp
  have step: "check_rate_limit cfg ev st ip t =
      Inr (int (length z) < RATE_LIMIT_REQUESTS cfg, ?st')"
    by (rule redis_step_in_window)
       (use Cons.prems pos in \<open>auto simp del: of_int_less_iff\<close>)
  have p1: "\<And>u u'. u \<in> set ts \<Longrightarrow> u' \<in> set ts \<Longrightarrow> u' - u < ?W"
    using Cons.prems(1) by simp
  have p2: "distinct ts" using Cons.prems(2) by simp
  have p3: "\<And>u. u \<in> set ts \<Longrightarrow> redis_live (redis_store ?st') (redis_key ip) u = ?z'"
  proof -
    fix u assume "u \<in> set ts"
    then have "u - t < ?W" using Cons.prems(1)[of t u] by simp
    then show "redis_live (redis_store ?st') (redis_key ip) u = ?z'"
      by (simp add: redis_live_def)
  qed
  have p4: "\<And>sc u. sc \<in> snd ` set ?z' \<Longrightarrow> u \<in> set ts \<Longrightarrow> u - sc < ?W"
    using Cons.prems(1)[of t] Cons.prems(4) by auto
  have p5: "\<And>u. u \<in> set ts \<Longrightarrow> u \<notin> fst ` set ?z'"
    using Cons.prems(2) Cons.prems(5) by auto
  have p6: "redis_client ?st'" using Cons.prems(6) by simp
  from Cons.IH[OF p1 p2 p3 p4 p5 p6 Cons.prems(7)]
  obtain st'' where rest: "run cfg ?st' (map (\<lambda>t. (ev, ip, t)) ts) =
      Inr (map (\<lambda>i. int (length ?z' + i) < RATE_LIMIT_REQUESTS cfg) [0..<length ts], st'')"
    by blast
  have "map (\<lambda>i. int (length z + i) < RATE_LIMIT_REQUESTS cfg) [0..<length (t # ts)] =
      (int (length z) < RATE_LIMIT_REQUESTS cfg) #
      map (\<lambda>i. int (length ?z' + i) < RATE_LIMIT_REQUESTS cfg) [0..<length ts]"
    by (simp add: map_upt_Suc ac_simps del: upt_Suc)
  then show ?case
    using step rest by (simp del: upt_Suc)
qed

lemma redis_window_quota:
  assumes "\<And>t t'. t \<in> set ts \<Longrightarrow> t' \<in> set ts \<Longrightarrow>
             t' - t < real_of_int (RATE_LIMIT_WINDOW cfg)"
    and "distinct ts"
    and "redis_store st (redis_key ip) = None"
    and "redis_client st" and "\<not> redis_fails ev"
  shows "\<exists>st'. run cfg st (map (\<lambda>t. (ev, ip, t)) ts) =
           Inr (map (\<lambda>i. int i < RATE_LIMIT_REQUESTS cfg) [0..<length ts], st')"
  using redis_window_results[of ts cfg st ip "[]" ev] assms
  by (simp add: redis_live_def)

text \<open>
  C1: the Redis store does not keep the quota when checks carry equal timestamps.
  Its sorted set is keyed by \<^verbatim>\<open>str(current_time)\<close>, so a second check at the same
  time adds no member and the count stays where it was: with a limit of 2 and a window
  of 10 seconds, three checks of one key at time 5 all return true.
\<close>

theorem redis_equal_timestamps_over_quota:
  "(case run \<lparr>RATE_LIMIT_REQUESTS = 2, RATE_LIMIT_WINDOW = 10\<rparr>
      \<lparr>redis_client = True, SessionLocal = False, redis_store = Map.empty,
       rate_limits = [], rate_limit_storage = Map.empty\<rparr>
      [(\<lparr>redis_fails = False, db_fails = NoFault\<rparr>, ''1.2.3.4'', 5),
       (\<lparr>redis_fails = False, db_fails = NoFault\<rparr>, ''1.2.3.4'', 5),
       (\<lparr>redis_fails = False, db_fails = NoFault\<rparr>, ''1.2.3.4'', 5)] of
     Inl e \<Rightarrow> []
   | Inr (bs, st') \<Rightarrow> bs) = [True, True, True]"
  by (simp add: check_rate_limit_def check_rate_limit_redis_def try_except_def redis_try_def
      redis_pipeline_def redis_live_def zremrangebyscore_def zadd_def zcard_def redis_key_def)

section \<open>Rejected checks\<close>

text \<open>
  A rejected check of the in-memory store leaves the key with its window and nothing
  more, and a rejected check of the relational store leaves the table as it was.
\<close>

lemma memory_reject_no_entry:
  "\<not> fst (check_rate_limit_memory cfg s ip t) \<Longrightarrow>
   storage_get (snd (check_rate_limit_memory cfg s ip t)) ip =
     memory_window cfg t (storage_get s ip)"
  by (simp add: memory_fst memory_snd_same)

lemma db_reject_no_entry:
  "db_session cfg fault table ip t = Inr (False, table') \<Longrightarrow> table' = table"
  by (auto simp: db_session_def Let_def split: if_splits)

text \<open>
  C2: the Redis pipeline adds the member whatever the count is. With a limit of 1 and a
  window of 10 seconds, the check at time 0 is admitted and the check at time 1 is
  rejected, and yet the set of the key, after the removal of expired members at time 1,
  is \<open>{0}\<close> before the rejected check and \<open>{0, 1}\<close> after it.
\<close>

theorem redis_rejected_check_is_recorded:
  "(case run \<lparr>RATE_LIMIT_REQUESTS = 1, RATE_LIMIT_WINDOW = 10\<rparr>
      \<lparr>redis_client = True, SessionLocal = False, redis_store = Map.empty,
       rate_limits = [], rate_limit_storage = Map.empty\<rparr>
      [(\<lparr>redis_fails = False, db_fails = NoFault\<rparr>, ''1.2.3.4'', 0)] of
     Inl e \<Rightarrow> False
   | Inr (bs, st1) \<Rightarrow>
       (case check_rate_limit \<lparr>RATE_LIMIT_REQUESTS = 1, RATE_LIMIT_WINDOW = 10\<rparr>
               \<lparr>redis_fails = False, db_fails = NoFault\<rparr> st1 ''1.2.3.4'' 1 of
          Inl e \<Rightarrow> False
        | Inr (b, st2) \<Rightarrow>
            bs = [True] \<and> b = False \<and>
            zremrangebyscore (redis_live (redis_store st1) (redis_key ''1.2.3.4'') 1)
              0 (1 - 10) = [(0, 0)] \<and>
            zremrangebyscore (redis_live (redis_store st2) (redis_key ''1.2.3.4'') 1)
              0 (1 - 10) = [(0, 0), (1, 1)]))"
  by (simp add: check_rate_limit_def check_rate_limit_redis_def try_except_def redis_try_def
      redis_pipeline_def redis_live_def zremrangebyscore_def zadd_def zcard_def redis_key_def)

section \<open>The concrete scenario\<close>

text \<open>
  C7: with a limit of 3 requests in a window of 10 seconds, checks of one key at the
  times 0, 1, 2, 3 and 11 on the empty in-memory store return true, true, true, false,
  true: at time 11 the entries of times 0 and 1 have left the window.
\<close>

theorem scenario_3_in_10:
  "fst (run_memory \<lparr>RATE_LIMIT_REQUESTS = 3, RATE_LIMIT_WINDOW = 10\<rparr> Map.empty
         [(ip, 0), (ip, 1), (ip, 2), (ip, 3), (ip, 11)])
   = [True, True, True, False, True]"
  by (simp add: check_rate_limit_memory_def memory_window_def storage_get_def)

section \<open>The length of the stored lists\<close>

lemma memory_step_bound:
  assumes "0 \<le> RATE_LIMIT_REQUESTS cfg"
    and "\<And>k. int (length (storage_get s k)) \<le> RATE_LIMIT_REQUESTS cfg"
  shows "int (length (storage_get (snd (check_rate_limit_memory cfg s ip t)) k))
         \<le> RATE_LIMIT_REQUESTS cfg"
proof (cases "k = ip")
  case True
  have "int (length (memory_window cfg t (storage_get s ip))) \<le> RATE_LIMIT_REQUESTS cfg"
    using assms(2)[of ip] memory_window_length[of cfg t "storage_get s ip"] by linarith
  then show ?thesis unfolding True memory_snd_same by auto
next
  case False
  then show ?thesis using assms(2)[of k] by (simp add: memory_get_other)
qed

lemma run_memory_bound:
  assumes "0 \<le> RATE_LIMIT_REQUESTS cfg"
  shows "(\<And>k. int (length (storage_get s k)) \<le> RATE_LIMIT_REQUESTS cfg) \<Longrightarrow>
         int (length (storage_get (snd (run_memory cfg s calls)) k)) \<le> RATE_LIMIT_REQUESTS cfg"
proof (induction calls arbitrary: s)
  case Nil
  then show ?case by simp
next
  case (Cons c calls)
  obtain ip t where c: "c = (ip, t)" by (cases c)
  have "\<And>k. int (length (storage_get (snd (check_rate_limit_memory cfg s ip t)) k))
          \<le> RATE_LIMIT_REQUESTS cfg"
    using memory_step_bound[OF assms Cons.prems, of ip t] by simp
  from Cons.IH[OF this] show ?case unfolding c run_memory_snd_Cons .
qed

text \<open>
  C10, as the code has it: when \<open>RATE_LIMIT_REQUESTS\<close> is not negative, then starting
  from the empty in-memory storage, after any sequence of checks with any keys and
  times, the list stored for every key has at most \<open>RATE_LIMIT_REQUESTS\<close> entries.
\<close>

theorem memory_length_invariant:
  "0 \<le> RATE_LIMIT_REQUESTS cfg \<Longrightarrow>
   int (length (storage_get (snd (run_memory cfg Map.empty calls)) k)) \<le> RATE_LIMIT_REQUESTS cfg"
  by (rule run_memory_bound) (simp_all add: storage_get_def)

theorem memory_length_invariant_witness:
  "0 \<le> RATE_LIMIT_REQUESTS \<lparr>RATE_LIMIT_REQUESTS = 2, RATE_LIMIT_WINDOW = 10\<rparr> \<and>
   storage_get (snd (run_memory \<lparr>RATE_LIMIT_REQUESTS = 2, RATE_LIMIT_WINDOW = 10\<rparr> Map.empty
      [(''a'', 0), (''b'', 1), (''a'', 2), (''a'', 3), (''a'', 11)])) ''a'' = [2, 11] \<and>
   int (length (storage_get (snd (run_memory \<lparr>RATE_LIMIT_REQUESTS = 2, RATE_LIMIT_WINDOW = 10\<rparr>
      Map.empty [(''a'', 0), (''b'', 1), (''a'', 2), (''a'', 3), (''a'', 11)])) ''a''))
     \<le> RATE_LIMIT_REQUESTS \<lparr>RATE_LIMIT_REQUESTS = 2, RATE_LIMIT_WINDOW = 10\<rparr>"
  using memory_length_invariant[of "\<lparr>RATE_LIMIT_REQUESTS = 2, RATE_LIMIT_WINDOW = 10\<rparr>"
      "[(''a'', 0), (''b'', 1), (''a'', 2), (''a'', 3), (''a'', 11)]" "''a''"]
  by (simp add: check_rate_limit_memory_def memory_window_def storage_get_def)

text \<open>
  C10 as stated fails for a negative limit, which the configuration accepts: with
  \<open>RATE_LIMIT_REQUESTS = -1\<close> the one check is rejected and nothing is appended, and
  the list stored for the key, the empty list, is longer than the limit.
\<close>

theorem negative_limit_breaks_length_bound:
  "fst (run_memory \<lparr>RATE_LIMIT_REQUESTS = - 1, RATE_LIMIT_WINDOW = 10\<rparr> Map.empty
         [(''1.2.3.4'', 0)]) = [False] \<and>
   snd (run_memory \<lparr>RATE_LIMIT_REQUESTS = - 1, RATE_LIMIT_WINDOW = 10\<rparr> Map.empty
         [(''1.2.3.4'', 0)]) ''1.2.3.4'' = Some [] \<and>
   \<not> int (length (storage_get
           (snd (run_memory \<lparr>RATE_LIMIT_REQUESTS = - 1, RATE_LIMIT_WINDOW = 10\<rparr> Map.empty
                  [(''1.2.3.4'', 0)])) ''1.2.3.4''))
       \<le> RATE_LIMIT_REQUESTS \<lparr>RATE_LIMIT_REQUESTS = - 1, RATE_LIMIT_WINDOW = 10\<rparr>"
  by (simp add: check_rate_limit_memory_def memory_window_def storage_get_def)

section \<open>Keys are independent\<close>

text \<open>
  C9: a check of key \<open>ip\<close> leaves the entry of every other key \<open>ip'\<close> as it was; the
  decision for a key is the same after any sequence of checks of other keys, however
  many of them were rejected, as before it; and a key with no entry is counted as 0:
  the check is admitted exactly when the limit is positive, and the key then holds the
  one new timestamp.
\<close>

theorem key_independence:
  "(ip' \<noteq> ip \<longrightarrow> snd (check_rate_limit_memory cfg s ip t) ip' = s ip') \<and>
   (ip' \<notin> fst ` set calls \<longrightarrow>
      fst (check_rate_limit_memory cfg (snd (run_memory cfg s calls)) ip' t) =
      fst (check_rate_limit_memory cfg s ip' t)) \<and>
   (s ip = None \<longrightarrow>
      check_rate_limit_memory cfg s ip t =
        (0 < RATE_LIMIT_REQUESTS cfg, s(ip \<mapsto> (if 0 < RATE_LIMIT_REQUESTS cfg then [t] else []))))"
proof (intro conjI impI)
  assume "ip' \<noteq> ip"
  then show "snd (check_rate_limit_memory cfg s ip t) ip' = s ip'" by (rule memory_snd_other)
next
  assume "ip' \<notin> fst ` set calls"
  then have "storage_get (snd (run_memory cfg s calls)) ip' = storage_get s ip'"
    by (simp add: storage_get_def run_memory_other)
  then show "fst (check_rate_limit_memory cfg (snd (run_memory cfg s calls)) ip' t) =
      fst (check_rate_limit_memory cfg s ip' t)"
    by (simp add: memory_fst)
next
  assume "s ip = None"
  then show "check_rate_limit_memory cfg s ip t =
        (0 < RATE_LIMIT_REQUESTS cfg, s(ip \<mapsto> (if 0 < RATE_LIMIT_REQUESTS cfg then [t] else [])))"
    by (auto simp: check_rate_limit_memory_def storage_get_def memory_window_def Let_def)
qed

theorem key_independence_witness:
  "''B'' \<noteq> ''A'' \<and> ''B'' \<notin> fst ` set [(''A'', 0::real), (''A'', 1)] \<and>
   (Map.empty :: storage) ''A'' = None \<and>
   fst (run_memory \<lparr>RATE_LIMIT_REQUESTS = 1, RATE_LIMIT_WINDOW = 10\<rparr> Map.empty
         [(''A'', 0), (''A'', 1)]) = [True, False] \<and>
   snd (check_rate_limit_memory \<lparr>RATE_LIMIT_REQUESTS = 1, RATE_LIMIT_WINDOW = 10\<rparr>
         Map.empty ''A'' 2) ''B'' = None \<and>
   fst (check_rate_limit_memory \<lparr>RATE_LIMIT_REQUESTS = 1, RATE_LIMIT_WINDOW = 10\<rparr>
         (snd (run_memory \<lparr>RATE_LIMIT_REQUESTS = 1, RATE_LIMIT_WINDOW = 10\<rparr> Map.empty
                [(''A'', 0), (''A'', 1)])) ''B'' 2) = True \<and>
   check_rate_limit_memory \<lparr>RATE_LIMIT_REQUESTS = 1, RATE_LIMIT_WINDOW = 10\<rparr>
         Map.empty ''A'' 2 = (True, [''A'' \<mapsto> [2]])"
  using key_independence[where ip' = "''B''" and ip = "''A''"
      and cfg = "\<lparr>RATE_LIMIT_REQUESTS = 1, RATE_LIMIT_WINDOW = 10\<rparr>"
      and s = Map.empty and t = 2 and calls = "[(''A'', 0), (''A'', 1)]"]
  by (simp add: check_rate_limit_memory_def memory_window_def storage_get_def)

text \<open>
  The same frame for the limiter as a whole: whatever store answers a check of \<open>ip\<close>,
  the in-memory list, the Redis key and the rows of every other key stay as they were.
\<close>

lemma redis_key_inj: "redis_key ip' = redis_key ip \<longleftrightarrow> ip' = ip"
  by (simp add: redis_key_def)

lemma check_rate_limit_frame:
  assumes "ip' \<noteq> ip" and "check_rate_limit cfg ev st ip t = Inr (b, st')"
  shows "rate_limit_storage st' ip' = rate_limit_storage st ip' \<and>
         redis_store st' (redis_key ip') = redis_store st (redis_key ip') \<and>
         filter (\<lambda>r. client_ip r = ip') (rate_limits st') =
         filter (\<lambda>r. client_ip r = ip') (rate_limits st)"
proof -
  have mem: "rate_limit_storage (snd (memory_fallback cfg st ip t)) ip' = rate_limit_storage st ip'"
    "redis_store (snd (memory_fallback cfg st ip t)) = redis_store st"
    "rate_limits (snd (memory_fallback cfg st ip t)) = rate_limits st"
    using memory_snd_other[OF assms(1), of cfg "rate_limit_storage st" t]
    by (simp_all add: memory_fallback_def case_prod_beta)
  have red: "snd (redis_pipeline cfg db (redis_key ip) t) (redis_key ip') = db (redis_key ip')" for db
    using assms(1) by (simp add: redis_pipeline_def Let_def redis_key_inj)
  have dbs: "db_session cfg f table ip t = Inr (b', table') \<Longrightarrow>
      filter (\<lambda>r. client_ip r = ip') table' = filter (\<lambda>r. client_ip r = ip') table" for f table b' table'
    using assms(1) by (auto simp: db_session_def Let_def split: if_splits intro: filter_cong)
  show ?thesis
    using assms(2) mem red[of "redis_store st"] dbs[of "db_fails ev" "rate_limits st"]
    by (auto simp: check_rate_limit_def check_rate_limit_redis_def check_rate_limit_database_def
        try_except_def redis_try_def split: sum.splits prod.splits if_splits)
qed

section \<open>The limiter always answers\<close>

text \<open>
  C6: for every configuration, every state, every client key and every behaviour of the
  backends on the call (Redis raising or not, the database session raising in a query,
  in the commit or not at all), \<open>check_rate_limit\<close> returns a boolean and no error:
  each handler falls back to the in-memory check, which raises nothing.
\<close>

theorem check_rate_limit_total:
  "\<exists>b st'. check_rate_limit cfg ev st ip t = Inr (b, st')"
  by (auto simp: check_rate_limit_def check_rate_limit_redis_def check_rate_limit_database_def
        try_except_def memory_fallback_def split: sum.splits prod.splits)

text \<open>So does every sequence of requests: one answer for each request, and no error.\<close>

lemma check_rate_limit_no_error: "check_rate_limit cfg ev st ip t \<noteq> Inl e"
  by (auto simp: check_rate_limit_def check_rate_limit_redis_def check_rate_limit_database_def
        try_except_def split: sum.splits prod.splits)

lemma run_total: "\<exists>bs st'. run cfg st calls = Inr (bs, st') \<and> length bs = length calls"
proof (induction calls arbitrary: st)
  case Nil
  then show ?case by simp
next
  case (Cons c calls)
  obtain ev ip t where c: "c = (ev, ip, t)" by (cases c)
  obtain b st1 where step: "check_rate_limit cfg ev st ip t = Inr (b, st1)"
    by (cases "check_rate_limit cfg ev st ip t") (auto simp: check_rate_limit_no_error)
  from Cons.IH[of st1] obtain bs st' where
    "run cfg st1 calls = Inr (bs, st')" "length bs = length calls"
    by blast
  then show ?case by (simp add: c step)
qed

section \<open>The boundary of the window\<close>







section \<open>Falling back\<close>

lemma fallback_keeps:
  "redis_store (snd (memory_fallback cfg st ip t)) = redis_store st \<and>
   rate_limits (snd (memory_fallback cfg st ip t)) = rate_limits st \<and>
   redis_client (snd (memory_fallback cfg st ip t)) = redis_client st \<and>
   SessionLocal (snd (memory_fallback cfg st ip t)) = SessionLocal st"
  by (simp add: memory_fallback_def case_prod_beta)

text \<open>
  C4, as the code has it: when Redis is the selected store and raises, and when the
  database is the selected store and its session raises, the same check (same key, same
  time) is answered by the in-memory store, in one step; the fallback touches neither
  the table nor the Redis database. The database is never the fallback of Redis.
\<close>

theorem fallback_goes_to_memory:
  "(redis_client st \<and> redis_fails ev \<longrightarrow>
      check_rate_limit cfg ev st ip t = Inr (memory_fallback cfg st ip t)) \<and>
   (\<not> redis_client st \<and> SessionLocal st \<and>
    db_session cfg (db_fails ev) (rate_limits st) ip t = Inl e \<longrightarrow>
      check_rate_limit cfg ev st ip t = Inr (memory_fallback cfg st ip t)) \<and>
   rate_limits (snd (memory_fallback cfg st ip t)) = rate_limits st \<and>
   redis_store (snd (memory_fallback cfg st ip t)) = redis_store st"
  by (simp add: check_rate_limit_def check_rate_limit_redis_def check_rate_limit_database_def
        try_except_def redis_try_def fallback_keeps)

theorem fallback_goes_to_memory_witness:
  "check_rate_limit \<lparr>RATE_LIMIT_REQUESTS = 1, RATE_LIMIT_WINDOW = 10\<rparr>
      \<lparr>redis_fails = True, db_fails = NoFault\<rparr>
      \<lparr>redis_client = True, SessionLocal = True, redis_store = Map.empty,
       rate_limits = [], rate_limit_storage = Map.empty\<rparr> ''1.2.3.4'' 0
    = Inr (True, \<lparr>redis_client = True, SessionLocal = True, redis_store = Map.empty,
       rate_limits = [], rate_limit_storage = [''1.2.3.4'' \<mapsto> [0]]\<rparr>) \<and>
   db_session \<lparr>RATE_LIMIT_REQUESTS = 1, RATE_LIMIT_WINDOW = 10\<rparr> FailQuery [] ''1.2.3.4'' 0
    = Inl BackendError \<and>
   check_rate_limit \<lparr>RATE_LIMIT_REQUESTS = 1, RATE_LIMIT_WINDOW = 10\<rparr>
      \<lparr>redis_fails = False, db_fails = FailQuery\<rparr>
      \<lparr>redis_client = False, SessionLocal = True, redis_store = Map.empty,
       rate_limits = [], rate_limit_storage = Map.empty\<rparr> ''1.2.3.4'' 0
    = Inr (True, \<lparr>redis_client = False, SessionLocal = True, redis_store = Map.empty,
       rate_limits = [], rate_limit_storage = [''1.2.3.4'' \<mapsto> [0]]\<rparr>)"
  using fallback_goes_to_memory[where cfg = "\<lparr>RATE_LIMIT_REQUESTS = 1, RATE_LIMIT_WINDOW = 10\<rparr>"
      and ev = "\<lparr>redis_fails = True, db_fails = NoFault\<rparr>"
      and st = "\<lparr>redis_client = True, SessionLocal = True, redis_store = Map.empty,
       rate_limits = [], rate_limit_storage = Map.empty\<rparr>" and ip = "''1.2.3.4''" and t = 0
      and e = BackendError]
    fallback_goes_to_memory[where cfg = "\<lparr>RATE_LIMIT_REQUESTS = 1, RATE_LIMIT_WINDOW = 10\<rparr>"
      and ev = "\<lparr>redis_fails = False, db_fails = FailQuery\<rparr>"
      and st = "\<lparr>redis_client = False, SessionLocal = True, redis_store = Map.empty,
       rate_limits = [], rate_limit_storage = Map.empty\<rparr>" and ip = "''1.2.3.4''" and t = 0
      and e = BackendError]
  by (simp add: memory_fallback_def check_rate_limit_memory_def memory_window_def
      storage_get_def db_session_def)

text \<open>
  C4 as stated fails: with both Redis and the database configured, Redis raising and the
  database healthy, the check is answered by the in-memory store; the table stays
  empty, where a check against the database would have inserted a row.
\<close>

theorem redis_failure_skips_database:
  "check_rate_limit \<lparr>RATE_LIMIT_REQUESTS = 1, RATE_LIMIT_WINDOW = 10\<rparr>
      \<lparr>redis_fails = True, db_fails = NoFault\<rparr>
      \<lparr>redis_client = True, SessionLocal = True, redis_store = Map.empty,
       rate_limits = [], rate_limit_storage = Map.empty\<rparr> ''1.2.3.4'' 0
    = Inr (True, \<lparr>redis_client = True, SessionLocal = True, redis_store = Map.empty,
       rate_limits = [], rate_limit_storage = [''1.2.3.4'' \<mapsto> [0]]\<rparr>) \<and>
   check_rate_limit_database \<lparr>RATE_LIMIT_REQUESTS = 1, RATE_LIMIT_WINDOW = 10\<rparr>
      \<lparr>redis_fails = True, db_fails = NoFault\<rparr>
      \<lparr>redis_client = True, SessionLocal = True, redis_store = Map.empty,
       rate_limits = [], rate_limit_storage = Map.empty\<rparr> ''1.2.3.4'' 0
    = Inr (True, \<lparr>redis_client = True, SessionLocal = True, redis_store = Map.empty,
       rate_limits = [\<lparr>client_ip = ''1.2.3.4'', timestamp = 0\<rparr>],
       rate_limit_storage = Map.empty\<rparr>) \<and>
   check_rate_limit \<lparr>RATE_LIMIT_REQUESTS = 1, RATE_LIMIT_WINDOW = 10\<rparr>
      \<lparr>redis_fails = True, db_fails = NoFault\<rparr>
      \<lparr>redis_client = True, SessionLocal = True, redis_store = Map.empty,
       rate_limits = [], rate_limit_storage = Map.empty\<rparr> ''1.2.3.4'' 0
    \<noteq> check_rate_limit_database \<lparr>RATE_LIMIT_REQUESTS = 1, RATE_LIMIT_WINDOW = 10\<rparr>
      \<lparr>redis_fails = True, db_fails = NoFault\<rparr>
      \<lparr>redis_client = True, SessionLocal = True, redis_store = Map.empty,
       rate_limits = [], rate_limit_storage = Map.empty\<rparr> ''1.2.3.4'' 0"
  by (simp add: check_rate_limit_def check_rate_limit_redis_def check_rate_limit_database_def
      try_except_def redis_try_def memory_fallback_def check_rate_limit_memory_def
      memory_window_def storage_get_def db_session_def)

section \<open>The selection of the backend\<close>

lemma check_keeps_selection:
  "check_rate_limit cfg ev st ip t = Inr (b, st') \<Longrightarrow>
   redis_client st' = redis_client st \<and> SessionLocal st' = SessionLocal st"
  by (auto simp: check_rate_limit_def check_rate_limit_redis_def check_rate_limit_database_def
        try_except_def memory_fallback_def split: sum.splits prod.splits if_splits)

lemma run_keeps_selection:
  "run cfg st calls = Inr (bs, st') \<Longrightarrow>
   redis_client st' = redis_client st \<and> SessionLocal st' = SessionLocal st"
proof (induction calls arbitrary: st bs)
  case Nil
  then show ?case by simp
next
  case (Cons c calls)
  obtain ev ip t where c: "c = (ev, ip, t)" by (cases c)
  from Cons.prems obtain b st1 bs1 where
    step: "check_rate_limit cfg ev st ip t = Inr (b, st1)" and
    rest: "run cfg st1 calls = Inr (bs1, st')"
    by (auto simp: c split: sum.splits prod.splits)
  from Cons.IH[OF rest] check_keeps_selection[OF step] show ?case by simp
qed

text \<open>
  C5, as the code has it: \<open>check_rate_limit\<close> never assigns \<open>redis_client\<close> or
  \<open>SessionLocal\<close>. After any sequence of requests, whatever failed in it, both are
  as they were at the start, and the next check is dispatched by them as the first
  was: a failure moves one call to the in-memory store, not the selection.
\<close>

theorem selection_is_fixed:
  "run cfg st calls = Inr (bs, st') \<Longrightarrow>
   redis_client st' = redis_client st \<and> SessionLocal st' = SessionLocal st \<and>
   check_rate_limit cfg ev st' ip t =
     (if redis_client st then check_rate_limit_redis cfg ev st' ip t
      else if SessionLocal st then check_rate_limit_database cfg ev st' ip t
      else Inr (memory_fallback cfg st' ip t))"
  using run_keeps_selection[of cfg st calls bs st'] by (simp add: check_rate_limit_def)

theorem selection_is_fixed_witness:
  "run \<lparr>RATE_LIMIT_REQUESTS = 1, RATE_LIMIT_WINDOW = 10\<rparr>
      \<lparr>redis_client = True, SessionLocal = True, redis_store = Map.empty,
       rate_limits = [], rate_limit_storage = Map.empty\<rparr>
      [(\<lparr>redis_fails = True, db_fails = NoFault\<rparr>, ''1.2.3.4'', 0)]
    = Inr ([True], \<lparr>redis_client = True, SessionLocal = True, redis_store = Map.empty,
       rate_limits = [], rate_limit_storage = [''1.2.3.4'' \<mapsto> [0]]\<rparr>) \<and>
   check_rate_limit \<lparr>RATE_LIMIT_REQUESTS = 1, RATE_LIMIT_WINDOW = 10\<rparr>
      \<lparr>redis_fails = False, db_fails = NoFault\<rparr>
      \<lparr>redis_client = True, SessionLocal = True, redis_store = Map.empty,
       rate_limits = [], rate_limit_storage = [''1.2.3.4'' \<mapsto> [0]]\<rparr> ''1.2.3.4'' 1
    = check_rate_limit_redis \<lparr>RATE_LIMIT_REQUESTS = 1, RATE_LIMIT_WINDOW = 10\<rparr>
      \<lparr>redis_fails = False, db_fails = NoFault\<rparr>
      \<lparr>redis_client = True, SessionLocal = True, redis_store = Map.empty,
       rate_limits = [], rate_limit_storage = [''1.2.3.4'' \<mapsto> [0]]\<rparr> ''1.2.3.4'' 1"
proof -
  have r: "run \<lparr>RATE_LIMIT_REQUESTS = 1, RATE_LIMIT_WINDOW = 10\<rparr>
      \<lparr>redis_client = True, SessionLocal = True, redis_store = Map.empty,
       rate_limits = [], rate_limit_storage = Map.empty\<rparr>
      [(\<lparr>redis_fails = True, db_fails = NoFault\<rparr>, ''1.2.3.4'', 0)]
    = Inr ([True], \<lparr>redis_client = True, SessionLocal = True, redis_store = Map.empty,
       rate_limits = [], rate_limit_storage = [''1.2.3.4'' \<mapsto> [0]]\<rparr>)"
    by (simp add: check_rate_limit_def check_rate_limit_redis_def try_except_def redis_try_def
        memory_fallback_def check_rate_limit_memory_def memory_window_def storage_get_def)
  from selection_is_fixed[OF r, of "\<lparr>redis_fails = False, db_fails = NoFault\<rparr>" "''1.2.3.4''" 1] r
  show ?thesis by simp
qed

text \<open>
  C5 as stated fails: after a check on which Redis raised (answered by the in-memory
  store), the next check is answered by Redis again. With a limit of 1, the checks at
  times 0 and 1 are both admitted, the second one recorded in Redis; the in-memory
  store, had the limiter stayed on it, would have rejected the second.
\<close>

theorem redis_is_tried_again:
  "(case run \<lparr>RATE_LIMIT_REQUESTS = 1, RATE_LIMIT_WINDOW = 10\<rparr>
      \<lparr>redis_client = True, SessionLocal = True, redis_store = Map.empty,
       rate_limits = [], rate_limit_storage = Map.empty\<rparr>
      [(\<lparr>redis_fails = True, db_fails = NoFault\<rparr>, ''1.2.3.4'', 0),
       (\<lparr>redis_fails = False, db_fails = NoFault\<rparr>, ''1.2.3.4'', 1)] of
      Inl e \<Rightarrow> False
    | Inr (bs, st') \<Rightarrow> bs = [True, True] \<and>
        redis_live (redis_store st') (redis_key ''1.2.3.4'') 1 = [(1, 1)] \<and>
        rate_limits st' = [] \<and>
        storage_get (rate_limit_storage st') ''1.2.3.4'' = [0]) \<and>
   (case run \<lparr>RATE_LIMIT_REQUESTS = 1, RATE_LIMIT_WINDOW = 10\<rparr>
      \<lparr>redis_client = True, SessionLocal = True, redis_store = Map.empty,
       rate_limits = [], rate_limit_storage = Map.empty\<rparr>
      [(\<lparr>redis_fails = True, db_fails = NoFault\<rparr>, ''1.2.3.4'', 0)] of
      Inl e \<Rightarrow> False
    | Inr (bs, st1) \<Rightarrow>
        fst (memory_fallback \<lparr>RATE_LIMIT_REQUESTS = 1, RATE_LIMIT_WINDOW = 10\<rparr> st1 ''1.2.3.4'' 1)
          = False)"
  by (simp add: check_rate_limit_def check_rate_limit_redis_def try_except_def redis_try_def
      redis_pipeline_def redis_live_def zremrangebyscore_def zadd_def zcard_def redis_key_def
      memory_fallback_def check_rate_limit_memory_def memory_window_def storage_get_def)

section \<open>The priority of the client key\<close>

lemma split_hd: "\<exists>ws. split c s = takeWhile (\<lambda>x. x \<noteq> c) s # ws"
  by (induction s) auto

text \<open>
  C8, as the code has it: the key is the first comma-separated value of
  \<^verbatim>\<open>X-Forwarded-For\<close>, stripped, when that header is present and not empty; else the
  value of \<^verbatim>\<open>X-Real-IP\<close> when present and not empty; else the host of the peer
  address; else \<^verbatim>\<open>"unknown"\<close>. A header that is present with an empty value counts
  as absent (\<^verbatim>\<open>if forwarded_for:\<close>).
\<close>

theorem client_key_priority:
  "(headers request ''X-Forwarded-For'' = Some v \<and> v \<noteq> [] \<longrightarrow>
      get_client_ip request = Inr (strip (takeWhile (\<lambda>x. x \<noteq> CHR '','') v))) \<and>
   ((headers request ''X-Forwarded-For'' = None \<or> headers request ''X-Forwarded-For'' = Some []) \<and>
    headers request ''X-Real-IP'' = Some w \<and> w \<noteq> [] \<longrightarrow>
      get_client_ip request = Inr w) \<and>
   ((headers request ''X-Forwarded-For'' = None \<or> headers request ''X-Forwarded-For'' = Some []) \<and>
    (headers request ''X-Real-IP'' = None \<or> headers request ''X-Real-IP'' = Some []) \<longrightarrow>
      get_client_ip request =
        Inr (case client request of Some a \<Rightarrow> host a | None \<Rightarrow> ''unknown''))"
proof (intro conjI impI)
  assume a: "headers request ''X-Forwarded-For'' = Some v \<and> v \<noteq> []"
  then obtain c cs where v: "v = c # cs" by (cases v) auto
  obtain ws where "split CHR '','' v = takeWhile (\<lambda>x. x \<noteq> CHR '','') v # ws"
    using split_hd by blast
  with a v show "get_client_ip request = Inr (strip (takeWhile (\<lambda>x. x \<noteq> CHR '','') v))"
    by (simp add: get_client_ip_def del: split.simps)
next
  assume a: "(headers request ''X-Forwarded-For'' = None \<or> headers request ''X-Forwarded-For'' = Some []) \<and>
    headers request ''X-Real-IP'' = Some w \<and> w \<noteq> []"
  then obtain c cs where w: "w = c # cs" by (cases w) auto
  with a show "get_client_ip request = Inr w"
    by (auto simp: get_client_ip_def)
next
  assume "(headers request ''X-Forwarded-For'' = None \<or> headers request ''X-Forwarded-For'' = Some []) \<and>
    (headers request ''X-Real-IP'' = None \<or> headers request ''X-Real-IP'' = Some [])"
  then show "get_client_ip request =
        Inr (case client request of Some a \<Rightarrow> host a | None \<Rightarrow> ''unknown'')"
    by (auto simp: get_client_ip_def split: option.splits)
qed

theorem client_key_priority_witness:
  "get_client_ip \<lparr>headers = [''X-Forwarded-For'' \<mapsto> '' 1.2.3.4 , 5.6.7.8'',
                              ''X-Real-IP'' \<mapsto> ''10.0.0.1''],
                   client = Some \<lparr>host = ''127.0.0.1'', port = 4000\<rparr>\<rparr> = Inr ''1.2.3.4'' \<and>
   get_client_ip \<lparr>headers = [''X-Real-IP'' \<mapsto> ''10.0.0.1''],
                   client = Some \<lparr>host = ''127.0.0.1'', port = 4000\<rparr>\<rparr> = Inr ''10.0.0.1'' \<and>
   get_client_ip \<lparr>headers = Map.empty,
                   client = Some \<lparr>host = ''127.0.0.1'', port = 4000\<rparr>\<rparr> = Inr ''127.0.0.1'' \<and>
   get_client_ip \<lparr>headers = Map.empty, client = None\<rparr> = Inr ''unknown''"
  using client_key_priority[where request = "\<lparr>headers = [''X-Forwarded-For'' \<mapsto> '' 1.2.3.4 , 5.6.7.8'',
                              ''X-Real-IP'' \<mapsto> ''10.0.0.1''],
                   client = Some \<lparr>host = ''127.0.0.1'', port = 4000\<rparr>\<rparr>"
        and v = "'' 1.2.3.4 , 5.6.7.8''" and w = "''10.0.0.1''"]
    client_key_priority[where request = "\<lparr>headers = [''X-Real-IP'' \<mapsto> ''10.0.0.1''],
                   client = Some \<lparr>host = ''127.0.0.1'', port = 4000\<rparr>\<rparr>"
        and v = "[]" and w = "''10.0.0.1''"]
    client_key_priority[where request = "\<lparr>headers = Map.empty,
                   client = Some \<lparr>host = ''127.0.0.1'', port = 4000\<rparr>\<rparr>"
        and v = "[]" and w = "[]"]
    client_key_priority[where request = "\<lparr>headers = Map.empty, client = None\<rparr>"
        and v = "[]" and w = "[]"]
  by (simp add: strip_def isspace_def)

text \<open>
  C8 as stated fails: a request whose \<^verbatim>\<open>X-Forwarded-For\<close> header is present and empty
  gets the value of \<^verbatim>\<open>X-Real-IP\<close>, not the (empty) first value of the forwarded
  header.
\<close>

theorem empty_forwarded_header_is_skipped:
  "headers \<lparr>headers = [''X-Forwarded-For'' \<mapsto> '''', ''X-Real-IP'' \<mapsto> ''10.0.0.1''],
            client = None\<rparr> ''X-Forwarded-For'' = Some '''' \<and>
   get_client_ip \<lparr>headers = [''X-Forwarded-For'' \<mapsto> '''', ''X-Real-IP'' \<mapsto> ''10.0.0.1''],
                   client = None\<rparr> = Inr ''10.0.0.1'' \<and>
   get_client_ip \<lparr>headers = [''X-Forwarded-For'' \<mapsto> '''', ''X-Real-IP'' \<mapsto> ''10.0.0.1''],
                   client = None\<rparr> \<noteq> Inr (strip (hd (split CHR '','' '''')))"
  by (simp add: get_client_ip_def strip_def)

end
